theory Spec2Isabelle
  imports Main "HOL-Library.Multiset"
begin

section \<open>The item store of main.go\<close>

subsection \<open>Go's int\<close>

text \<open>
  The image is built by \<^verbatim>\<open>golang:1.22-alpine\<close> for a 64-bit target, so Go's
  \<^verbatim>\<open>int\<close> has 64 bits. Values are integers between \<open>minInt\<close> and \<open>maxInt\<close>;
  the only arithmetic of the program is \<^verbatim>\<open>s.nextID++\<close>, which wraps around in Go
  (signed overflow is defined, it does not panic). \<open>wrap_int\<close> is that wrap-around.
\<close>

definition maxInt :: int where
  "maxInt = 2 ^ 63 - 1"

definition minInt :: int where
  "minInt = - (2 ^ 63)"

definition wrap_int :: "int \<Rightarrow> int" where
  "wrap_int x = (x + 2 ^ 63) mod 2 ^ 64 - 2 ^ 63"

subsection \<open>Item and MemoryStore\<close>

text \<open>
  \<^verbatim>\<open>type Item struct { ID int; Name string; Value int }\<close>
\<close>

record Item =
  ID :: int
  Name :: string
  Value :: int

text \<open>
  \<^verbatim>\<open>type MemoryStore struct { items map[int]Item; mu sync.RWMutex; nextID int }\<close>
  Every method holds \<^verbatim>\<open>mu\<close> from its first statement to its return, so each method
  is one atomic step on the pair of the map and the counter; the lock itself is not part
  of the state.
\<close>

record MemoryStore =
  items :: "int \<rightharpoonup> Item"
  nextID :: int

text \<open>
  The only error the store builds is
  \<^verbatim>\<open>fmt.Errorf("item with id %d not found", id)\<close>.
\<close>

datatype error = NotFound int

definition NewMemoryStore :: MemoryStore where
  "NewMemoryStore = \<lparr>items = Map.empty, nextID = 1\<rparr>"

definition GetItem :: "MemoryStore \<Rightarrow> int \<Rightarrow> error + Item" where
  "GetItem s id' =
     (case items s id' of
        None \<Rightarrow> Inl (NotFound id')
      | Some item \<Rightarrow> Inr item)"

definition AddItem :: "MemoryStore \<Rightarrow> Item \<Rightarrow> (error + int) \<times> MemoryStore" where
  "AddItem s item =
     (let newItem = \<lparr>ID = nextID s, Name = Name item, Value = Value item\<rparr>;
          s1 = s\<lparr>items := (items s)(nextID s \<mapsto> newItem)\<rparr>;
          s2 = s1\<lparr>nextID := wrap_int (nextID s1 + 1)\<rparr>
      in (Inr (ID newItem), s2))"

definition UpdateItem :: "MemoryStore \<Rightarrow> int \<Rightarrow> Item \<Rightarrow> error option \<times> MemoryStore" where
  "UpdateItem s id' item =
     (case items s id' of
        None \<Rightarrow> (Some (NotFound id'), s)
      | Some _ \<Rightarrow> (None, s\<lparr>items := (items s)(id' \<mapsto> item\<lparr>ID := id'\<rparr>)\<rparr>))"

definition DeleteItem :: "MemoryStore \<Rightarrow> int \<Rightarrow> error option \<times> MemoryStore" where
  "DeleteItem s id' =
     (case items s id' of
        None \<Rightarrow> (Some (NotFound id'), s)
      | Some _ \<Rightarrow> (None, s\<lparr>items := (items s)(id' := None)\<rparr>))"

text \<open>
  \<^verbatim>\<open>for _, item := range s.items { items = append(items, item) }\<close>
  Go visits every entry of a map once, in an order the runtime chooses anew for each
  loop. The order is a parameter of the model: \<open>order\<close> is the list of keys as the
  runtime produces them, and \<open>iteration_order\<close> says what Go guarantees of it.
\<close>

definition iteration_order :: "(int \<rightharpoonup> Item) \<Rightarrow> int list \<Rightarrow> bool" where
  "iteration_order m order = (distinct order \<and> set order = dom m)"

fun range_append :: "(int \<rightharpoonup> Item) \<Rightarrow> int list \<Rightarrow> Item list \<Rightarrow> Item list" where
  "range_append m [] acc = acc"
| "range_append m (k # ks) acc =
     (case m k of
        None \<Rightarrow> range_append m ks acc
      | Some item \<Rightarrow> range_append m ks (acc @ [item]))"

definition GetItems :: "int list \<Rightarrow> MemoryStore \<Rightarrow> error + Item list" where
  "GetItems order s = Inr (range_append (items s) order [])"

subsection \<open>Sequences of store operations\<close>

text \<open>
  The three writers of the store as one type of operation; \<open>run\<close> performs a sequence
  of them from left to right and collects the ids that the calls of \<open>AddItem\<close> return,
  in the order of the calls. \<open>adds\<close> counts the calls of \<open>AddItem\<close>.
\<close>

datatype op = Add Item | Update int Item | Delete int

fun step :: "MemoryStore \<Rightarrow> op \<Rightarrow> int list \<times> MemoryStore" where
  "step s (Add item) =
     (case AddItem s item of
        (Inr id', s') \<Rightarrow> ([id'], s')
      | (Inl err, s') \<Rightarrow> ([], s'))"
| "step s (Update id' item) = ([], snd (UpdateItem s id' item))"
| "step s (Delete id') = ([], snd (DeleteItem s id'))"

fun run :: "MemoryStore \<Rightarrow> op list \<Rightarrow> int list \<times> MemoryStore" where
  "run s [] = ([], s)"
| "run s (x # xs) =
     (case step s x of
        (a, s') \<Rightarrow> (case run s' xs of (b, s'') \<Rightarrow> (a @ b, s'')))"

fun adds :: "op list \<Rightarrow> nat" where
  "adds [] = 0"
| "adds (Add item # xs) = Suc (adds xs)"
| "adds (Update id' item # xs) = adds xs"
| "adds (Delete id' # xs) = adds xs"

text \<open>
  \<open>keyed\<close>: every stored item carries the key it is stored under as its \<open>ID\<close>.
  \<open>churn n\<close> is the sequence that adds an item and deletes it again, \<open>n\<close> times over:
  on a new store the \<open>i\<close>-th item gets the id \<open>i\<close>, so the map never holds more than
  one item.
\<close>

definition keyed :: "MemoryStore \<Rightarrow> bool" where
  "keyed s = (\<forall>k v. items s k = Some v \<longrightarrow> ID v = k)"

definition churn :: "nat \<Rightarrow> op list" where
  "churn n =
     concat (map (\<lambda>i. [Add \<lparr>ID = 0, Name = ''a'', Value = 0\<rparr>, Delete (1 + int i)]) [0..<n])"

section \<open>The HTTP layer of main.go\<close>

subsection \<open>strconv.Atoi\<close>

text \<open>
  \<^verbatim>\<open>strconv.Atoi\<close> is Go's standard library. As documented there, it accepts one
  optional sign (\<^verbatim>\<open>+\<close> or \<^verbatim>\<open>-\<close>) followed by at least one decimal digit and
  nothing else, and fails when the value does not fit an \<^verbatim>\<open>int\<close>. A Go string is a
  sequence of bytes, as a \<open>string\<close> of HOL is.
\<close>

definition digit_of :: "char \<Rightarrow> nat option" where
  "digit_of c =
     (let n = (of_char c :: nat)
      in if 48 \<le> n \<and> n \<le> 57 then Some (n - 48) else None)"

fun parse_digits :: "nat \<Rightarrow> string \<Rightarrow> nat option" where
  "parse_digits n [] = Some n"
| "parse_digits n (c # cs) =
     (case digit_of c of
        None \<Rightarrow> None
      | Some d \<Rightarrow> parse_digits (n * 10 + d) cs)"

definition Atoi :: "string \<Rightarrow> int option" where
  "Atoi s =
     (case s of
        [] \<Rightarrow> None
      | c # cs \<Rightarrow>
          (let ds = (if c = CHR ''-'' \<or> c = CHR ''+'' then cs else s)
           in if ds = [] then None
              else (case parse_digits 0 ds of
                      None \<Rightarrow> None
                    | Some n \<Rightarrow>
                        (let v = (if c = CHR ''-'' then - int n else int n)
                         in if minInt \<le> v \<and> v \<le> maxInt then Some v else None))))"

subsection \<open>Requests and responses\<close>

text \<open>
  Of a request the handlers read \<^verbatim>\<open>r.Method\<close>, \<^verbatim>\<open>r.URL.Path\<close> and the body,
  the last only through \<^verbatim>\<open>json.NewDecoder(r.Body).Decode(&item)\<close>. \<open>Body\<close> is the
  outcome of that call: \<open>None\<close> when it returns an error, otherwise the decoded
  \<^verbatim>\<open>Item\<close> (a field the JSON object lacks keeps Go's zero value).

  Of a response the model keeps the status code and what is written as the body.
  \<open>ErrText err\<close> is the text \<^verbatim>\<open>err.Error()\<close> of a store error. The branches that
  answer 500 when writing the JSON to the connection fails are input and output, and
  are left out.
\<close>

record Request =
  Method :: string
  Path :: string
  Body :: "Item option"

datatype payload =
    Text string
  | ErrText error
  | JSONItem Item
  | JSONItems "Item list"
  | JSONId int
  | Empty

record Response =
  Status :: nat
  Payload :: payload

abbreviation StatusOK :: nat where "StatusOK \<equiv> 200"
abbreviation StatusCreated :: nat where "StatusCreated \<equiv> 201"
abbreviation StatusNoContent :: nat where "StatusNoContent \<equiv> 204"
abbreviation StatusBadRequest :: nat where "StatusBadRequest \<equiv> 400"
abbreviation StatusNotFound :: nat where "StatusNotFound \<equiv> 404"
abbreviation StatusMethodNotAllowed :: nat where "StatusMethodNotAllowed \<equiv> 405"
abbreviation StatusInternalServerError :: nat where "StatusInternalServerError \<equiv> 500"

definition http_Error :: "payload \<Rightarrow> nat \<Rightarrow> Response" where
  "http_Error msg code = \<lparr>Status = code, Payload = msg\<rparr>"

subsection \<open>The handlers\<close>

text \<open>
  Each handler takes the store and the request and returns the response with the store
  it leaves. \<^verbatim>\<open>r.URL.Path[len("/items/"):]\<close> is \<open>drop\<close>: the handlers that slice
  the path run only below the pattern \<^verbatim>\<open>/items/\<close>, where the path is at least that
  long.
\<close>

definition getItemHandler :: "MemoryStore \<Rightarrow> Request \<Rightarrow> Response \<times> MemoryStore" where
  "getItemHandler s r =
     (let idStr = drop (length ''/items/'') (Path r)
      in case Atoi idStr of
           None \<Rightarrow> (http_Error (Text ''Invalid item ID'') StatusBadRequest, s)
         | Some id' \<Rightarrow>
             (case GetItem s id' of
                Inl err \<Rightarrow> (http_Error (ErrText err) StatusNotFound, s)
              | Inr item \<Rightarrow> (\<lparr>Status = StatusOK, Payload = JSONItem item\<rparr>, s)))"

definition addItemHandler :: "MemoryStore \<Rightarrow> Request \<Rightarrow> Response \<times> MemoryStore" where
  "addItemHandler s r =
     (case Body r of
        None \<Rightarrow> (http_Error (Text ''Invalid request body'') StatusBadRequest, s)
      | Some item \<Rightarrow>
          if Name item = [] then
            (http_Error (Text ''Item name cannot be empty'') StatusBadRequest, s)
          else if Value item < 0 then
            (http_Error (Text ''Item value cannot be negative'') StatusBadRequest, s)
          else
            (case AddItem s item of
               (Inl err, s') \<Rightarrow>
                 (http_Error (Text ''Internal Server Error'') StatusInternalServerError, s')
             | (Inr id', s') \<Rightarrow> (\<lparr>Status = StatusCreated, Payload = JSONId id'\<rparr>, s')))"

definition updateItemHandler :: "MemoryStore \<Rightarrow> Request \<Rightarrow> Response \<times> MemoryStore" where
  "updateItemHandler s r =
     (let idStr = drop (length ''/items/'') (Path r)
      in case Atoi idStr of
           None \<Rightarrow> (http_Error (Text ''Invalid item ID'') StatusBadRequest, s)
         | Some id' \<Rightarrow>
             (case Body r of
                None \<Rightarrow> (http_Error (Text ''Invalid request body'') StatusBadRequest, s)
              | Some item \<Rightarrow>
                  (case UpdateItem s id' item of
                     (Some err, s') \<Rightarrow> (http_Error (ErrText err) StatusNotFound, s')
                   | (None, s') \<Rightarrow> (\<lparr>Status = StatusNoContent, Payload = Empty\<rparr>, s'))))"

definition deleteItemHandler :: "MemoryStore \<Rightarrow> Request \<Rightarrow> Response \<times> MemoryStore" where
  "deleteItemHandler s r =
     (let idStr = drop (length ''/items/'') (Path r)
      in case Atoi idStr of
           None \<Rightarrow> (http_Error (Text ''Invalid item ID'') StatusBadRequest, s)
         | Some id' \<Rightarrow>
             (case DeleteItem s id' of
                (Some err, s') \<Rightarrow> (http_Error (ErrText err) StatusNotFound, s')
              | (None, s') \<Rightarrow> (\<lparr>Status = StatusNoContent, Payload = Empty\<rparr>, s')))"

definition getItemsHandler :: "int list \<Rightarrow> MemoryStore \<Rightarrow> Request \<Rightarrow> Response \<times> MemoryStore" where
  "getItemsHandler order s r =
     (case GetItems order s of
        Inl err \<Rightarrow> (http_Error (Text ''Internal Server Error'') StatusInternalServerError, s)
      | Inr its \<Rightarrow> (\<lparr>Status = StatusOK, Payload = JSONItems its\<rparr>, s))"

subsection \<open>Routing\<close>

text \<open>
  \<open>itemsSubtree\<close> is the function literal that \<^verbatim>\<open>main\<close> registers for the pattern
  \<^verbatim>\<open>/items/\<close>: a switch on the method.
\<close>

definition itemsSubtree :: "int list \<Rightarrow> MemoryStore \<Rightarrow> Request \<Rightarrow> Response \<times> MemoryStore" where
  "itemsSubtree order s r =
     (if Method r = ''GET'' then
        (if Path r = ''/items/'' then getItemsHandler order s r else getItemHandler s r)
      else if Method r = ''POST'' then addItemHandler s r
      else if Method r = ''PUT'' then updateItemHandler s r
      else if Method r = ''DELETE'' then deleteItemHandler s r
      else (http_Error (Text ''Method not allowed'') StatusMethodNotAllowed, s))"

text \<open>
  \<^verbatim>\<open>http.ServeMux\<close> is Go's standard library. \<open>mux\<close> is its dispatch with the two
  patterns of \<^verbatim>\<open>main\<close>, for a request whose path is written without percent-escapes
  and is in canonical form (no empty segment, no segment \<^verbatim>\<open>.\<close> or \<^verbatim>\<open>..\<close>): the
  request goes to the handler of \<^verbatim>\<open>/items\<close> when its path is exactly that, to the
  handler of \<^verbatim>\<open>/items/\<close> when its path starts with that, and to the mux's own 404
  otherwise. Neither pattern names a method, so the mux looks at none. A path that is
  not canonical is answered by the mux with a redirect to its canonical form, and no
  handler of \<^verbatim>\<open>main\<close> runs.
\<close>

definition mux :: "int list \<Rightarrow> MemoryStore \<Rightarrow> Request \<Rightarrow> Response \<times> MemoryStore" where
  "mux order s r =
     (if Path r = ''/items'' then getItemsHandler order s r
      else if take (length ''/items/'') (Path r) = ''/items/'' then itemsSubtree order s r
      else (http_Error (Text ''404 page not found'') StatusNotFound, s))"


section \<open>Properties\<close>

subsection \<open>Wrap-around, steps and runs\<close>

lemma wrap_wrap_add: "wrap_int (wrap_int x + y) = wrap_int (x + y)"
  unfolding wrap_int_def by (simp add: mod_simps algebra_simps)

lemma wrap_id: "minInt \<le> x \<Longrightarrow> x \<le> maxInt \<Longrightarrow> wrap_int x = x"
  unfolding wrap_int_def minInt_def maxInt_def by simp

lemma wrap_range: "minInt \<le> wrap_int x \<and> wrap_int x \<le> maxInt"
  unfolding wrap_int_def minInt_def maxInt_def
  using pos_mod_bound[of "2^64" "x + 2^63"] pos_mod_sign[of "2^64" "x + 2^63"] by simp

lemma wrap_idem: "wrap_int (wrap_int x) = wrap_int x"
  using wrap_wrap_add[of x 0] by simp

lemma step_Add:
  "step s (Add item) =
     ([nextID s],
      s\<lparr>items := (items s)(nextID s \<mapsto> \<lparr>ID = nextID s, Name = Name item, Value = Value item\<rparr>),
        nextID := wrap_int (nextID s + 1)\<rparr>)"
  by (simp add: AddItem_def)

lemma step_Update:
  "step s (Update k item) =
     ([], if items s k = None then s else s\<lparr>items := (items s)(k \<mapsto> item\<lparr>ID := k\<rparr>)\<rparr>)"
  by (simp add: UpdateItem_def split: option.splits)

lemma step_Delete:
  "step s (Delete k) =
     ([], if items s k = None then s else s\<lparr>items := (items s)(k := None)\<rparr>)"
  by (simp add: DeleteItem_def split: option.splits)

lemma run_Cons:
  "run s (x # xs) = (fst (step s x) @ fst (run (snd (step s x)) xs), snd (run (snd (step s x)) xs))"
  by (simp add: case_prod_beta)

declare step.simps [simp del]
declare run.simps(2) [simp del]

lemma run_append:
  "run s (xs @ ys) =
     (fst (run s xs) @ fst (run (snd (run s xs)) ys), snd (run (snd (run s xs)) ys))"
  by (induction xs arbitrary: s) (simp_all add: run_Cons)

lemma adds_append: "adds (xs @ ys) = adds xs + adds ys"
  by (induction xs rule: adds.induct) simp_all

lemma run_ids:
  "wrap_int (nextID s) = nextID s \<Longrightarrow>
   fst (run s ops) = map (\<lambda>i. wrap_int (nextID s + int i)) [0..<adds ops]"
proof (induction ops arbitrary: s)
  case Nil
  then show ?case by simp
next
  case (Cons x xs)
  show ?case
  proof (cases x)
    case (Add item)
    let ?s' = "snd (step s x)"
    have n': "nextID ?s' = wrap_int (nextID s + 1)"
      by (simp add: Add step_Add)
    have "fst (run ?s' xs) = map (\<lambda>i. wrap_int (nextID ?s' + int i)) [0..<adds xs]"
      by (rule Cons.IH) (simp add: n' wrap_idem)
    then have tl: "fst (run ?s' xs) = map (\<lambda>i. wrap_int (nextID s + int (Suc i))) [0..<adds xs]"
      by (simp add: n' wrap_wrap_add add.assoc)
    have "map (\<lambda>i. wrap_int (nextID s + int i)) [0..<Suc (adds xs)]
          = wrap_int (nextID s + int 0) # map (\<lambda>i. wrap_int (nextID s + int (Suc i))) [0..<adds xs]"
      by (simp only: map_upt_Suc)
    then show ?thesis
      using tl Cons.prems by (simp add: Add run_Cons step_Add del: upt_Suc)
  next
    case (Update k item)
    have "nextID (snd (step s x)) = nextID s"
      by (simp add: Update step_Update)
    then show ?thesis
      using Cons.IH[of "snd (step s x)"] Cons.prems
      by (simp add: Update run_Cons step_Update)
  next
    case (Delete k)
    have "nextID (snd (step s x)) = nextID s"
      by (simp add: Delete step_Delete)
    then show ?thesis
      using Cons.IH[of "snd (step s x)"] Cons.prems
      by (simp add: Delete run_Cons step_Delete)
  qed
qed

lemma run_nextID:
  "wrap_int (nextID s) = nextID s \<Longrightarrow>
   nextID (snd (run s ops)) = wrap_int (nextID s + int (adds ops))"
proof (induction ops arbitrary: s)
  case Nil
  then show ?case by simp
next
  case (Cons x xs)
  show ?case
  proof (cases x)
    case (Add item)
    let ?s' = "snd (step s x)"
    have n': "nextID ?s' = wrap_int (nextID s + 1)"
      by (simp add: Add step_Add)
    have "nextID (snd (run ?s' xs)) = wrap_int (nextID ?s' + int (adds xs))"
      by (rule Cons.IH) (simp add: n' wrap_idem)
    then have "nextID (snd (run ?s' xs)) = wrap_int (nextID s + (1 + int (adds xs)))"
      by (simp add: n' wrap_wrap_add add.assoc)
    then show ?thesis
      by (simp add: Add run_Cons)
  next
    case (Update k item)
    have "nextID (snd (step s x)) = nextID s"
      by (simp add: Update step_Update)
    then show ?thesis
      using Cons.IH[of "snd (step s x)"] Cons.prems
      by (simp add: Update run_Cons)
  next
    case (Delete k)
    have "nextID (snd (step s x)) = nextID s"
      by (simp add: Delete step_Delete)
    then show ?thesis
      using Cons.IH[of "snd (step s x)"] Cons.prems
      by (simp add: Delete run_Cons)
  qed
qed

lemma step_dom:
  "dom (items (snd (step s x))) \<subseteq> dom (items s) \<union> set (fst (step s x))"
  by (cases x) (auto simp: step_Add step_Update step_Delete)

lemma run_dom:
  "dom (items (snd (run s ops))) \<subseteq> dom (items s) \<union> set (fst (run s ops))"
proof (induction ops arbitrary: s)
  case Nil
  then show ?case by simp
next
  case (Cons x xs)
  have "dom (items (snd (run (snd (step s x)) xs)))
        \<subseteq> dom (items (snd (step s x))) \<union> set (fst (run (snd (step s x)) xs))"
    by (rule Cons.IH)
  with step_dom[of s x] show ?case
    unfolding run_Cons fst_conv snd_conv set_append by blast
qed

lemma step_keyed: "keyed s \<Longrightarrow> keyed (snd (step s x))"
  by (cases x) (auto simp: keyed_def step_Add step_Update step_Delete)

lemma run_keyed: "keyed s \<Longrightarrow> keyed (snd (run s ops))"
proof (induction ops arbitrary: s)
  case Nil
  then show ?case by simp
next
  case (Cons x xs)
  from Cons.prems have "keyed (snd (step s x))" by (rule step_keyed)
  then have "keyed (snd (run (snd (step s x)) xs))" by (rule Cons.IH)
  then show ?case by (simp add: run_Cons)
qed

subsection \<open>Ids are assigned in increasing order\<close>

lemma churn_Suc:
  "churn (Suc n) = churn n @ [Add \<lparr>ID = 0, Name = ''a'', Value = 0\<rparr>, Delete (1 + int n)]"
  by (simp add: churn_def)

lemma adds_churn: "adds (churn n) = n"
proof (induction n)
  case 0
  show ?case by (simp add: churn_def)
next
  case (Suc n)
  then show ?case by (simp add: churn_Suc adds_append)
qed

lemma NewMemoryStore_wrap: "wrap_int (nextID NewMemoryStore) = nextID NewMemoryStore"
  by (simp add: NewMemoryStore_def wrap_int_def)

lemma length_run_ids: "wrap_int (nextID s) = nextID s \<Longrightarrow> length (fst (run s ops)) = adds ops"
  by (simp add: run_ids)

lemma nth_run_ids:
  "wrap_int (nextID s) = nextID s \<Longrightarrow> i < adds ops \<Longrightarrow>
   fst (run s ops) ! i = wrap_int (nextID s + int i)"
  by (simp add: run_ids)

lemma new_ids_nth:
  assumes "i < adds ops" and "int (adds ops) \<le> maxInt"
  shows "fst (run NewMemoryStore ops) ! i = 1 + int i"
proof -
  have "fst (run NewMemoryStore ops) ! i = wrap_int (nextID NewMemoryStore + int i)"
    using NewMemoryStore_wrap assms(1) by (rule nth_run_ids)
  also have "\<dots> = wrap_int (1 + int i)"
    by (simp add: NewMemoryStore_def)
  also have "\<dots> = 1 + int i"
    using assms by (intro wrap_id) (simp_all add: minInt_def maxInt_def)
  finally show ?thesis .
qed

lemma new_ids:
  assumes "int (adds ops) \<le> maxInt"
  shows "fst (run NewMemoryStore ops) = map (\<lambda>i. 1 + int i) [0..<adds ops]"
proof (rule nth_equalityI)
  show "length (fst (run NewMemoryStore ops)) = length (map (\<lambda>i. 1 + int i) [0..<adds ops])"
    by (simp add: length_run_ids NewMemoryStore_wrap)
next
  fix i assume "i < length (fst (run NewMemoryStore ops))"
  then have "i < adds ops"
    by (simp add: length_run_ids NewMemoryStore_wrap)
  then show "fst (run NewMemoryStore ops) ! i = map (\<lambda>i. 1 + int i) [0..<adds ops] ! i"
    using assms by (simp add: new_ids_nth)
qed

lemma new_nextID:
  assumes "int (adds ops) < maxInt"
  shows "nextID (snd (run NewMemoryStore ops)) = 1 + int (adds ops)"
proof -
  have "nextID (snd (run NewMemoryStore ops)) = wrap_int (nextID NewMemoryStore + int (adds ops))"
    using NewMemoryStore_wrap by (rule run_nextID)
  also have "\<dots> = wrap_int (1 + int (adds ops))"
    by (simp add: NewMemoryStore_def)
  also have "\<dots> = 1 + int (adds ops)"
    using assms by (intro wrap_id) (simp_all add: minInt_def maxInt_def)
  finally show ?thesis .
qed

lemma churn_leaves_empty:
  "int n \<le> maxInt \<Longrightarrow> items (snd (run NewMemoryStore (churn n))) = Map.empty"
proof (induction n)
  case 0
  show ?case by (simp add: churn_def NewMemoryStore_def)
next
  case (Suc n)
  let ?s = "snd (run NewMemoryStore (churn n))"
  from Suc.prems have lt: "int (adds (churn n)) < maxInt"
    by (simp add: adds_churn)
  then have n: "nextID ?s = 1 + int n"
    using new_nextID[of "churn n"] by (simp add: adds_churn)
  from Suc.prems have "int n \<le> maxInt" by simp
  then have e: "items ?s = Map.empty" by (rule Suc.IH)
  have "items (snd (run ?s [Add \<lparr>ID = 0, Name = ''a'', Value = 0\<rparr>, Delete (1 + int n)])) = Map.empty"
    by (simp add: run_Cons step_Add step_Delete n e)
  then show ?case
    by (simp add: churn_Suc run_append)
qed

text \<open>
  Claim C1. On a store created by \<open>NewMemoryStore\<close>, every id that \<open>AddItem\<close> returns
  is strictly greater than every id it returned before, and so differs from each of
  them: whatever updates and deletions come between the calls, the ids returned are
  1, 2, 3, ... in the order of the calls. This is proved for sequences with at most
  \<open>maxInt\<close> calls of \<open>AddItem\<close>. The counter is a Go \<^verbatim>\<open>int\<close> and nothing checks it
  for overflow: the call after those returns \<open>minInt\<close>. The last theorem of this
  subsection shows it on the sequence that adds an item and deletes it again
  \<open>2 ^ 63 - 1\<close> times, which leaves the map empty, and then adds one more.
\<close>

theorem C1_ids_increasing:
  assumes "int (adds ops) \<le> maxInt"
  shows "sorted_wrt (<) (fst (run NewMemoryStore ops))
       \<and> distinct (fst (run NewMemoryStore ops))
       \<and> fst (run NewMemoryStore ops) = map (\<lambda>i. 1 + int i) [0..<adds ops]"
proof -
  have eq: "fst (run NewMemoryStore ops) = map (\<lambda>i. 1 + int i) [0..<adds ops]"
    using assms by (rule new_ids)
  have s: "sorted_wrt (<) (map (\<lambda>i. 1 + int i) [0..<adds ops])"
    by (simp add: sorted_wrt_iff_nth_less)
  have d: "distinct (map (\<lambda>i. 1 + int i) [0..<adds ops])"
    by (simp add: distinct_map inj_on_def)
  from eq s d show ?thesis by simp
qed

theorem C1_ids_increasing_witness:
  "int (adds [Add \<lparr>ID = 9, Name = ''a'', Value = 1\<rparr>, Delete 1,
              Add \<lparr>ID = 9, Name = ''b'', Value = 2\<rparr>, Add \<lparr>ID = 0, Name = ''c'', Value = 3\<rparr>])
     \<le> maxInt
   \<and> fst (run NewMemoryStore
        [Add \<lparr>ID = 9, Name = ''a'', Value = 1\<rparr>, Delete 1,
         Add \<lparr>ID = 9, Name = ''b'', Value = 2\<rparr>, Add \<lparr>ID = 0, Name = ''c'', Value = 3\<rparr>])
       = [1, 2, 3]"
proof -
  let ?ops = "[Add \<lparr>ID = 9, Name = ''a'', Value = 1\<rparr>, Delete 1,
               Add \<lparr>ID = 9, Name = ''b'', Value = 2\<rparr>, Add \<lparr>ID = 0, Name = ''c'', Value = 3\<rparr>]"
  have h: "int (adds ?ops) \<le> maxInt"
    by (simp add: maxInt_def)
  from C1_ids_increasing [OF h] have "fst (run NewMemoryStore ?ops) = [1, 2, 3]"
    by (simp add: upt_rec)
  with h show ?thesis by (rule conjI)
qed

theorem C1_ids_wrap_counterexample:
  "\<not> sorted_wrt (<)
       (fst (run NewMemoryStore (churn (2 ^ 63 - 1) @ [Add \<lparr>ID = 0, Name = ''a'', Value = 0\<rparr>])))"
proof
  let ?ops = "churn (2 ^ 63 - 1) @ [Add \<lparr>ID = 0, Name = ''a'', Value = 0\<rparr>]"
  let ?ids = "fst (run NewMemoryStore ?ops)"
  assume a: "sorted_wrt (<) ?ids"
  have n: "adds ?ops = 2 ^ 63"
    by (simp add: adds_append adds_churn)
  have len: "length ?ids = 2 ^ 63"
    using NewMemoryStore_wrap by (simp only: length_run_ids n)
  have lt: "(2 ^ 63 - 2 :: nat) < 2 ^ 63 - 1" "(2 ^ 63 - 1 :: nat) < 2 ^ 63"
    by simp_all
  from a have "?ids ! (2 ^ 63 - 2) < ?ids ! (2 ^ 63 - 1)"
    using lt len by (simp only: sorted_wrt_iff_nth_less)
  moreover have "?ids ! (2 ^ 63 - 2) = wrap_int (nextID NewMemoryStore + int (2 ^ 63 - 2))"
    using NewMemoryStore_wrap by (rule nth_run_ids) (simp only: n, simp)
  moreover have "?ids ! (2 ^ 63 - 1) = wrap_int (nextID NewMemoryStore + int (2 ^ 63 - 1))"
    using NewMemoryStore_wrap by (rule nth_run_ids) (simp only: n, simp)
  ultimately have "wrap_int (1 + int (2 ^ 63 - 2)) < wrap_int (1 + int (2 ^ 63 - 1))"
    by (simp add: NewMemoryStore_def)
  then show False
    by (simp add: wrap_int_def)
qed

subsection \<open>The invariant of the store\<close>

lemma new_dom: "dom (items (snd (run NewMemoryStore ops))) \<subseteq> set (fst (run NewMemoryStore ops))"
  using run_dom[of NewMemoryStore ops] by (simp add: NewMemoryStore_def)

lemma new_keys_positive:
  assumes "int (adds ops) \<le> maxInt" and "items (snd (run NewMemoryStore ops)) k = Some v"
  shows "0 < k"
proof -
  from assms(2) have "k \<in> dom (items (snd (run NewMemoryStore ops)))"
    by blast
  with new_dom have "k \<in> set (fst (run NewMemoryStore ops))"
    by blast
  then have "k \<in> set (map (\<lambda>i. 1 + int i) [0..<adds ops])"
    using new_ids[OF assms(1)] by simp
  then show ?thesis by auto
qed

lemma keyed_New: "keyed NewMemoryStore"
  by (simp add: keyed_def NewMemoryStore_def)

text \<open>
  Claim C7. In every store reached from \<open>NewMemoryStore\<close> by a sequence of calls of
  \<open>AddItem\<close>, \<open>UpdateItem\<close> and \<open>DeleteItem\<close>, each stored item carries its key as
  its \<open>ID\<close>, so no two stored items share an id. While the sequence has fewer than
  \<open>maxInt\<close> calls of \<open>AddItem\<close>, moreover: 0 is not a key; every id assigned so far
  is positive and below the counter; every key is an id that was assigned; and the ids
  were assigned in strictly increasing order, so an id, deleted or not, is never
  assigned a second time. After \<open>maxInt\<close> calls the counter has wrapped around to
  \<open>minInt\<close> and is below every id assigned: the last theorem of this subsection
  shows it on the sequence that adds an item and deletes it again \<open>2 ^ 63 - 1\<close> times.
\<close>

theorem C7_store_invariant:
  "keyed (snd (run NewMemoryStore ops)) \<and>
   (int (adds ops) < maxInt \<longrightarrow>
      items (snd (run NewMemoryStore ops)) 0 = None
    \<and> (\<forall>i\<in>set (fst (run NewMemoryStore ops)). 0 < i \<and> i < nextID (snd (run NewMemoryStore ops)))
    \<and> dom (items (snd (run NewMemoryStore ops))) \<subseteq> set (fst (run NewMemoryStore ops))
    \<and> sorted_wrt (<) (fst (run NewMemoryStore ops)))"
proof (intro conjI impI)
  show "keyed (snd (run NewMemoryStore ops))"
    using keyed_New by (rule run_keyed)
next
  assume b: "int (adds ops) < maxInt"
  then have b': "int (adds ops) \<le> maxInt" by simp
  show "items (snd (run NewMemoryStore ops)) 0 = None"
  proof (cases "items (snd (run NewMemoryStore ops)) 0")
    case None
    then show ?thesis .
  next
    case (Some v)
    with b' have "(0::int) < 0" by (rule new_keys_positive)
    then show ?thesis by simp
  qed
  show "\<forall>i\<in>set (fst (run NewMemoryStore ops)). 0 < i \<and> i < nextID (snd (run NewMemoryStore ops))"
    by (auto simp: new_ids[OF b'] new_nextID[OF b])
  show "dom (items (snd (run NewMemoryStore ops))) \<subseteq> set (fst (run NewMemoryStore ops))"
    by (rule new_dom)
  show "sorted_wrt (<) (fst (run NewMemoryStore ops))"
    by (simp add: new_ids[OF b'] sorted_wrt_iff_nth_less)
qed

theorem C7_store_invariant_witness:
  "keyed (snd (run NewMemoryStore
      [Add \<lparr>ID = 0, Name = ''a'', Value = 1\<rparr>, Delete 1, Add \<lparr>ID = 1, Name = ''b'', Value = 2\<rparr>]))
   \<and> int (adds [Add \<lparr>ID = 0, Name = ''a'', Value = 1\<rparr>, Delete 1, Add \<lparr>ID = 1, Name = ''b'', Value = 2\<rparr>])
       < maxInt
   \<and> items (snd (run NewMemoryStore
      [Add \<lparr>ID = 0, Name = ''a'', Value = 1\<rparr>, Delete 1, Add \<lparr>ID = 1, Name = ''b'', Value = 2\<rparr>])) 0 = None
   \<and> sorted_wrt (<) (fst (run NewMemoryStore
      [Add \<lparr>ID = 0, Name = ''a'', Value = 1\<rparr>, Delete 1, Add \<lparr>ID = 1, Name = ''b'', Value = 2\<rparr>]))"
  using C7_store_invariant
    [of "[Add \<lparr>ID = 0, Name = ''a'', Value = 1\<rparr>, Delete 1, Add \<lparr>ID = 1, Name = ''b'', Value = 2\<rparr>]"]
  by (simp add: maxInt_def)

theorem C7_counter_wrap_counterexample:
  "\<not> (\<forall>i\<in>set (fst (run NewMemoryStore (churn (2 ^ 63 - 1)))).
        i < nextID (snd (run NewMemoryStore (churn (2 ^ 63 - 1)))))"
proof
  let ?ops = "churn (2 ^ 63 - 1)"
  assume a: "\<forall>i\<in>set (fst (run NewMemoryStore ?ops)). i < nextID (snd (run NewMemoryStore ?ops))"
  have pos: "(0::nat) < 2 ^ 63 - 1" by simp
  have len: "length (fst (run NewMemoryStore ?ops)) = 2 ^ 63 - 1"
    by (simp only: length_run_ids NewMemoryStore_wrap adds_churn)
  have "fst (run NewMemoryStore ?ops) ! 0 = wrap_int (nextID NewMemoryStore + int 0)"
    by (rule nth_run_ids) (simp_all only: NewMemoryStore_wrap adds_churn pos)
  then have first: "fst (run NewMemoryStore ?ops) ! 0 = 1"
    by (simp add: NewMemoryStore_def wrap_int_def)
  have "fst (run NewMemoryStore ?ops) ! 0 \<in> set (fst (run NewMemoryStore ?ops))"
    by (rule nth_mem) (simp only: len pos)
  with a first have "1 < nextID (snd (run NewMemoryStore ?ops))"
    by (simp del: One_nat_def)
  moreover have "nextID (snd (run NewMemoryStore ?ops)) = wrap_int (nextID NewMemoryStore + int (adds ?ops))"
    using NewMemoryStore_wrap by (rule run_nextID)
  ultimately have "1 < wrap_int (1 + int (2 ^ 63 - 1))"
    by (simp only: adds_churn NewMemoryStore_def MemoryStore.simps)
  then show False
    by (simp add: wrap_int_def)
qed

subsection \<open>Single operations\<close>

text \<open>
  Claim C2. For every store and every candidate item, \<open>AddItem\<close> succeeds and returns
  the value of the counter; \<open>GetItem\<close> with that id on the store it leaves succeeds
  and yields the item with that id and the candidate's name and value; and the \<open>ID\<close>
  field of the candidate has no influence on the outcome.
\<close>

theorem C2_add_then_get:
  "fst (AddItem s cand) = Inr (nextID s)
   \<and> GetItem (snd (AddItem s cand)) (nextID s)
       = Inr \<lparr>ID = nextID s, Name = Name cand, Value = Value cand\<rparr>
   \<and> AddItem s (cand\<lparr>ID := x\<rparr>) = AddItem s cand"
  by (simp add: AddItem_def GetItem_def)

text \<open>
  Claim C3. When \<open>k\<close> is a key of the store, \<open>UpdateItem s k repl\<close> succeeds for every
  replacement, whatever \<open>ID\<close> it carries, and the entry stored at \<open>k\<close> afterwards has
  the id \<open>k\<close> and the replacement's name and value; nothing else of the store changes.
\<close>

theorem C3_update_keeps_id:
  assumes "items s k = Some old"
  shows "UpdateItem s k repl = (None, s\<lparr>items := (items s)(k \<mapsto> repl\<lparr>ID := k\<rparr>)\<rparr>)
       \<and> GetItem (snd (UpdateItem s k repl)) k
           = Inr \<lparr>ID = k, Name = Name repl, Value = Value repl\<rparr>"
  using assms by (simp add: UpdateItem_def GetItem_def)

theorem C3_update_keeps_id_witness:
  "items (snd (AddItem NewMemoryStore \<lparr>ID = 0, Name = ''a'', Value = 1\<rparr>)) 1
     = Some \<lparr>ID = 1, Name = ''a'', Value = 1\<rparr>
   \<and> GetItem (snd (UpdateItem (snd (AddItem NewMemoryStore \<lparr>ID = 0, Name = ''a'', Value = 1\<rparr>)) 1
         \<lparr>ID = 77, Name = ''X'', Value = 5\<rparr>)) 1
     = Inr \<lparr>ID = 1, Name = ''X'', Value = 5\<rparr>"
proof -
  have h: "items (snd (AddItem NewMemoryStore \<lparr>ID = 0, Name = ''a'', Value = 1\<rparr>)) 1
     = Some \<lparr>ID = 1, Name = ''a'', Value = 1\<rparr>"
    by (simp add: AddItem_def NewMemoryStore_def)
  from C3_update_keeps_id [OF h, of "\<lparr>ID = 77, Name = ''X'', Value = 5\<rparr>", THEN conjunct2]
  have "GetItem (snd (UpdateItem (snd (AddItem NewMemoryStore \<lparr>ID = 0, Name = ''a'', Value = 1\<rparr>)) 1
         \<lparr>ID = 77, Name = ''X'', Value = 5\<rparr>)) 1
     = Inr \<lparr>ID = 1, Name = ''X'', Value = 5\<rparr>"
    by simp
  with h show ?thesis by (rule conjI)
qed

subsection \<open>Methods and routes\<close>

text \<open>
  Below \<^verbatim>\<open>/items/\<close> a method other than GET, POST, PUT and DELETE is answered 405 and
  the store is left as it is.
\<close>

lemma itemsSubtree_other_method:
  assumes "Method r \<noteq> ''GET''" "Method r \<noteq> ''POST''" "Method r \<noteq> ''PUT''" "Method r \<noteq> ''DELETE''"
  shows "itemsSubtree order s r = (http_Error (Text ''Method not allowed'') StatusMethodNotAllowed, s)"
  using assms by (simp add: itemsSubtree_def)

text \<open>
  Claim C4 asks for 405, with the store untouched, for every method that a matched
  route does not support, such as POST, PUT or DELETE on \<^verbatim>\<open>/items\<close>. The handler
  registered for \<^verbatim>\<open>/items\<close> is \<open>getItemsHandler\<close> itself, which does not look at the
  method: POST, PUT and DELETE on \<^verbatim>\<open>/items\<close> are answered 200 with the listing. And
  the switch below \<^verbatim>\<open>/items/\<close> does not look at the path for POST: a POST on
  \<^verbatim>\<open>/items/7\<close> creates an item.
\<close>

theorem C4_items_ignores_method:
  "mux [] NewMemoryStore \<lparr>Method = ''POST'', Path = ''/items'', Body = None\<rparr>
     = (\<lparr>Status = StatusOK, Payload = JSONItems []\<rparr>, NewMemoryStore)
   \<and> mux [] NewMemoryStore \<lparr>Method = ''PUT'', Path = ''/items'', Body = None\<rparr>
     = (\<lparr>Status = StatusOK, Payload = JSONItems []\<rparr>, NewMemoryStore)
   \<and> mux [] NewMemoryStore \<lparr>Method = ''DELETE'', Path = ''/items'', Body = None\<rparr>
     = (\<lparr>Status = StatusOK, Payload = JSONItems []\<rparr>, NewMemoryStore)
   \<and> fst (mux [] NewMemoryStore
        \<lparr>Method = ''POST'', Path = ''/items/7'', Body = Some \<lparr>ID = 0, Name = ''a'', Value = 1\<rparr>\<rparr>)
     = \<lparr>Status = StatusCreated, Payload = JSONId 1\<rparr>
   \<and> items (snd (mux [] NewMemoryStore
        \<lparr>Method = ''POST'', Path = ''/items/7'', Body = Some \<lparr>ID = 0, Name = ''a'', Value = 1\<rparr>\<rparr>)) 1
     = Some \<lparr>ID = 1, Name = ''a'', Value = 1\<rparr>"
  by (simp add: mux_def itemsSubtree_def getItemsHandler_def GetItems_def addItemHandler_def
      AddItem_def NewMemoryStore_def)

subsection \<open>Validation in the handlers\<close>

text \<open>
  Claim C5. When the body of a create request decodes to an item with an empty name or a
  negative value, \<open>addItemHandler\<close> answers 400 with the message of the first check that
  fails (the name is checked first) and returns the store as it was, items and counter:
  \<open>AddItem\<close>, which always changes the counter, has not run. A valid create that
  follows is therefore answered 201 with the id that the counter held before.
\<close>

theorem C5_invalid_create_rejected:
  assumes "Body r = Some item" and "Name item = [] \<or> Value item < 0"
  shows "addItemHandler s r
           = (http_Error (Text (if Name item = [] then ''Item name cannot be empty''
                                else ''Item value cannot be negative'')) StatusBadRequest, s)
       \<and> (\<forall>r' item'. Body r' = Some item' \<and> Name item' \<noteq> [] \<and> 0 \<le> Value item' \<longrightarrow>
             fst (addItemHandler (snd (addItemHandler s r)) r')
               = \<lparr>Status = StatusCreated, Payload = JSONId (nextID s)\<rparr>)"
  using assms by (auto simp: addItemHandler_def AddItem_def)

theorem C5_invalid_create_rejected_witness:
  "addItemHandler NewMemoryStore
      \<lparr>Method = ''POST'', Path = ''/items/'', Body = Some \<lparr>ID = 0, Name = ''n'', Value = - 1\<rparr>\<rparr>
     = (http_Error (Text ''Item value cannot be negative'') StatusBadRequest, NewMemoryStore)
   \<and> fst (addItemHandler (snd (addItemHandler NewMemoryStore
         \<lparr>Method = ''POST'', Path = ''/items/'', Body = Some \<lparr>ID = 0, Name = ''n'', Value = - 1\<rparr>\<rparr>))
         \<lparr>Method = ''POST'', Path = ''/items/'', Body = Some \<lparr>ID = 0, Name = ''n'', Value = 111\<rparr>\<rparr>)
     = \<lparr>Status = StatusCreated, Payload = JSONId 1\<rparr>"
proof -
  let ?bad = "\<lparr>Method = ''POST'', Path = ''/items/'', Body = Some \<lparr>ID = 0, Name = ''n'', Value = - 1\<rparr>\<rparr>"
  let ?good = "\<lparr>Method = ''POST'', Path = ''/items/'', Body = Some \<lparr>ID = 0, Name = ''n'', Value = 111\<rparr>\<rparr>"
  have b: "Body ?bad = Some \<lparr>ID = 0, Name = ''n'', Value = - 1\<rparr>"
    by simp
  have v: "Name \<lparr>ID = 0, Name = ''n'', Value = - 1\<rparr> = []
         \<or> Value \<lparr>ID = 0, Name = ''n'', Value = - 1\<rparr> < 0"
    by simp
  note inst = C5_invalid_create_rejected [OF b v, of NewMemoryStore]
  from inst have first: "addItemHandler NewMemoryStore ?bad
     = (http_Error (Text ''Item value cannot be negative'') StatusBadRequest, NewMemoryStore)"
    by simp
  from inst have "Body ?good = Some \<lparr>ID = 0, Name = ''n'', Value = 111\<rparr>
        \<and> Name \<lparr>ID = 0, Name = ''n'', Value = 111\<rparr> \<noteq> []
        \<and> 0 \<le> Value \<lparr>ID = 0, Name = ''n'', Value = 111\<rparr> \<longrightarrow>
      fst (addItemHandler (snd (addItemHandler NewMemoryStore ?bad)) ?good)
        = \<lparr>Status = StatusCreated, Payload = JSONId (nextID NewMemoryStore)\<rparr>"
    by blast
  then have second: "fst (addItemHandler (snd (addItemHandler NewMemoryStore ?bad)) ?good)
        = \<lparr>Status = StatusCreated, Payload = JSONId 1\<rparr>"
    by (simp add: NewMemoryStore_def)
  from first second show ?thesis by (rule conjI)
qed

subsection \<open>Absent ids\<close>

lemma step_absent:
  "adds [x] = 0 \<Longrightarrow> items s k = None \<Longrightarrow> items (snd (step s x)) k = None"
  by (cases x) (auto simp: step_Update step_Delete)

lemma run_absent:
  "adds ops = 0 \<Longrightarrow> items s k = None \<Longrightarrow> items (snd (run s ops)) k = None"
proof (induction ops arbitrary: s)
  case Nil
  then show ?case by simp
next
  case (Cons x xs)
  from Cons.prems(1) have a: "adds [x] = 0" and b: "adds xs = 0"
    by (cases x; simp)+
  from a Cons.prems(2) have "items (snd (step s x)) k = None"
    by (rule step_absent)
  with b have "items (snd (run (snd (step s x)) xs)) k = None"
    by (rule Cons.IH)
  then show ?case by (simp add: run_Cons)
qed

lemma DeleteItem_removes: "items (snd (DeleteItem s k)) k = None"
  by (simp add: DeleteItem_def split: option.splits)

text \<open>
  Claim C6. When \<open>k\<close> is not a key of the store, \<open>GetItem\<close>, \<open>UpdateItem\<close> and
  \<open>DeleteItem\<close> fail with \<open>NotFound k\<close>, and the two writers return the store
  unchanged; the handlers of a request whose id segment parses to \<open>k\<close> answer 404 with
  the text of that error and leave the store unchanged (the update handler after it
  has decoded the body). After \<open>DeleteItem s k\<close> has succeeded, a second
  \<open>DeleteItem\<close> with \<open>k\<close> fails with \<open>NotFound k\<close>, and so does \<open>GetItem\<close> with \<open>k\<close>,
  at once and after any further updates and deletions.
\<close>

theorem C6_absent_id_not_found:
  "(items s k = None \<longrightarrow>
      GetItem s k = Inl (NotFound k)
    \<and> UpdateItem s k item = (Some (NotFound k), s)
    \<and> DeleteItem s k = (Some (NotFound k), s))
   \<and> (items s k = None \<and> Atoi (drop (length ''/items/'') (Path r)) = Some k \<longrightarrow>
      getItemHandler s r = (http_Error (ErrText (NotFound k)) StatusNotFound, s)
    \<and> deleteItemHandler s r = (http_Error (ErrText (NotFound k)) StatusNotFound, s)
    \<and> (Body r = Some item \<longrightarrow>
         updateItemHandler s r = (http_Error (ErrText (NotFound k)) StatusNotFound, s)))
   \<and> (fst (DeleteItem s k) = None \<longrightarrow>
      DeleteItem (snd (DeleteItem s k)) k = (Some (NotFound k), snd (DeleteItem s k))
    \<and> GetItem (snd (DeleteItem s k)) k = Inl (NotFound k)
    \<and> (\<forall>ops. adds ops = 0 \<longrightarrow>
         GetItem (snd (run (snd (DeleteItem s k)) ops)) k = Inl (NotFound k)))"
proof (intro conjI impI allI)
  assume "items s k = None"
  then show "GetItem s k = Inl (NotFound k)"
    and "UpdateItem s k item = (Some (NotFound k), s)"
    and "DeleteItem s k = (Some (NotFound k), s)"
    by (simp_all add: GetItem_def UpdateItem_def DeleteItem_def)
next
  assume a: "items s k = None \<and> Atoi (drop (length ''/items/'') (Path r)) = Some k"
  then show "getItemHandler s r = (http_Error (ErrText (NotFound k)) StatusNotFound, s)"
    by (simp add: getItemHandler_def GetItem_def)
  from a show "deleteItemHandler s r = (http_Error (ErrText (NotFound k)) StatusNotFound, s)"
    by (simp add: deleteItemHandler_def DeleteItem_def)
  assume "Body r = Some item"
  with a show "updateItemHandler s r = (http_Error (ErrText (NotFound k)) StatusNotFound, s)"
    by (simp add: updateItemHandler_def UpdateItem_def)
next
  assume "fst (DeleteItem s k) = None"
  have gone: "items (snd (DeleteItem s k)) k = None"
    by (rule DeleteItem_removes)
  then show "DeleteItem (snd (DeleteItem s k)) k = (Some (NotFound k), snd (DeleteItem s k))"
    by (simp add: DeleteItem_def)
  from gone show "GetItem (snd (DeleteItem s k)) k = Inl (NotFound k)"
    by (simp add: GetItem_def)
  fix ops
  assume "adds ops = 0"
  then have "items (snd (run (snd (DeleteItem s k)) ops)) k = None"
    using gone by (rule run_absent)
  then show "GetItem (snd (run (snd (DeleteItem s k)) ops)) k = Inl (NotFound k)"
    by (simp add: GetItem_def)
qed

theorem C6_absent_id_not_found_witness:
  "fst (DeleteItem (snd (AddItem NewMemoryStore \<lparr>ID = 0, Name = ''a'', Value = 1\<rparr>)) 1) = None
   \<and> fst (DeleteItem (snd (DeleteItem (snd (AddItem NewMemoryStore \<lparr>ID = 0, Name = ''a'', Value = 1\<rparr>)) 1)) 1)
       = Some (NotFound 1)
   \<and> GetItem (snd (DeleteItem (snd (AddItem NewMemoryStore \<lparr>ID = 0, Name = ''a'', Value = 1\<rparr>)) 1)) 1
       = Inl (NotFound 1)
   \<and> items NewMemoryStore 5 = None
   \<and> GetItem NewMemoryStore 5 = Inl (NotFound 5)"
proof -
  let ?s = "snd (AddItem NewMemoryStore \<lparr>ID = 0, Name = ''a'', Value = 1\<rparr>)"
  have d: "fst (DeleteItem ?s 1) = None"
    by (simp add: DeleteItem_def AddItem_def NewMemoryStore_def)
  have e: "items NewMemoryStore 5 = None"
    by (simp add: NewMemoryStore_def)
  note inst1 = C6_absent_id_not_found [of ?s 1, THEN conjunct2, THEN conjunct2, rule_format, OF d]
  note inst2 = C6_absent_id_not_found [of NewMemoryStore 5, THEN conjunct1, rule_format, OF e]
  from inst1 have "fst (DeleteItem (snd (DeleteItem ?s 1)) 1) = Some (NotFound 1)"
    and "GetItem (snd (DeleteItem ?s 1)) 1 = Inl (NotFound 1)"
    by simp_all
  moreover from inst2 have "GetItem NewMemoryStore 5 = Inl (NotFound 5)"
    by simp
  ultimately show ?thesis
    using d e by simp
qed

text \<open>
  Claim C8. When the id segment of an update request parses to a key \<open>k\<close> of the store
  and the body decodes to an item, \<open>updateItemHandler\<close> answers 204 and stores the
  item's name and value at \<open>k\<close>, whatever they are: it checks neither the name nor the
  value. The instance that follows the theorem has an empty name and a negative value.
\<close>

theorem C8_update_not_validated:
  assumes "Atoi (drop (length ''/items/'') (Path r)) = Some k"
      and "items s k = Some old"
      and "Body r = Some item"
  shows "updateItemHandler s r
           = (\<lparr>Status = StatusNoContent, Payload = Empty\<rparr>,
              s\<lparr>items := (items s)(k \<mapsto> item\<lparr>ID := k\<rparr>)\<rparr>)
       \<and> GetItem (snd (updateItemHandler s r)) k
           = Inr \<lparr>ID = k, Name = Name item, Value = Value item\<rparr>"
  using assms by (simp add: updateItemHandler_def UpdateItem_def GetItem_def)

theorem C8_update_not_validated_witness:
  "Atoi (drop (length ''/items/'') ''/items/1'') = Some 1
   \<and> items (snd (AddItem NewMemoryStore \<lparr>ID = 0, Name = ''a'', Value = 1\<rparr>)) 1
       = Some \<lparr>ID = 1, Name = ''a'', Value = 1\<rparr>
   \<and> fst (updateItemHandler (snd (AddItem NewMemoryStore \<lparr>ID = 0, Name = ''a'', Value = 1\<rparr>))
        \<lparr>Method = ''PUT'', Path = ''/items/1'', Body = Some \<lparr>ID = 0, Name = [], Value = - 5\<rparr>\<rparr>)
       = \<lparr>Status = StatusNoContent, Payload = Empty\<rparr>
   \<and> GetItem (snd (updateItemHandler (snd (AddItem NewMemoryStore \<lparr>ID = 0, Name = ''a'', Value = 1\<rparr>))
        \<lparr>Method = ''PUT'', Path = ''/items/1'', Body = Some \<lparr>ID = 0, Name = [], Value = - 5\<rparr>\<rparr>)) 1
       = Inr \<lparr>ID = 1, Name = [], Value = - 5\<rparr>"
proof -
  let ?s = "snd (AddItem NewMemoryStore \<lparr>ID = 0, Name = ''a'', Value = 1\<rparr>)"
  let ?r = "\<lparr>Method = ''PUT'', Path = ''/items/1'', Body = Some \<lparr>ID = 0, Name = [], Value = - 5\<rparr>\<rparr>"
  have a: "Atoi (drop (length ''/items/'') ''/items/1'') = Some 1"
    by (simp add: Atoi_def digit_of_def minInt_def maxInt_def)
  then have a': "Atoi (drop (length ''/items/'') (Path ?r)) = Some 1"
    by simp
  have i: "items ?s 1 = Some \<lparr>ID = 1, Name = ''a'', Value = 1\<rparr>"
    by (simp add: AddItem_def NewMemoryStore_def)
  have b: "Body ?r = Some \<lparr>ID = 0, Name = [], Value = - 5\<rparr>"
    by simp
  note inst = C8_update_not_validated [OF a' i b]
  from inst [THEN conjunct1] have "fst (updateItemHandler ?s ?r) = \<lparr>Status = StatusNoContent, Payload = Empty\<rparr>"
    by simp
  moreover from inst [THEN conjunct2] have "GetItem (snd (updateItemHandler ?s ?r)) 1
       = Inr \<lparr>ID = 1, Name = [], Value = - 5\<rparr>"
    by simp
  ultimately show ?thesis
    using a i by simp
qed

subsection \<open>Listing\<close>

lemma range_append_eq:
  "range_append m ks acc = acc @ map (\<lambda>k. the (m k)) (filter (\<lambda>k. m k \<noteq> None) ks)"
  by (induction ks arbitrary: acc) (auto split: option.splits)

lemma range_append_order:
  assumes "iteration_order m order"
  shows "range_append m order [] = map (\<lambda>k. the (m k)) order"
proof -
  have "filter (\<lambda>k. m k \<noteq> None) order = order"
    using assms by (auto simp: iteration_order_def filter_id_conv)
  then show ?thesis
    by (simp add: range_append_eq)
qed

lemma ran_as_image: "ran m = (\<lambda>k. the (m k)) ` dom m"
  by (auto simp: ran_def dom_def image_iff) force

text \<open>
  Claim C9. For every store and every order in which the runtime may walk the map,
  \<open>GetItems\<close> succeeds and its result holds the value of every entry of the map, one
  element for each entry and nothing else: as a multiset it is the image of the keys
  under the lookup, its length is the number of keys, and its elements are the range of
  the map. In a store where every item carries its key as its \<open>ID\<close> (every store
  reached from \<open>NewMemoryStore\<close>), no item is listed twice. The order of the result is
  the order of the walk, of which nothing is known but \<open>iteration_order\<close>. The
  instance that follows the theorem is the listing after ids 1 and 2 were created.
\<close>

theorem C9_list_each_once:
  assumes "iteration_order (items s) order"
  shows "\<exists>its. GetItems order s = Inr its
       \<and> mset its = image_mset (\<lambda>k. the (items s k)) (mset_set (dom (items s)))
       \<and> set its = ran (items s)
       \<and> length its = card (dom (items s))
       \<and> (keyed s \<longrightarrow> distinct its)"
proof -
  let ?its = "map (\<lambda>k. the (items s k)) order"
  from assms have d: "distinct order" and e: "set order = dom (items s)"
    by (simp_all add: iteration_order_def)
  have g: "GetItems order s = Inr ?its"
    using assms by (simp add: GetItems_def range_append_order)
  have "mset_set (set order) = mset order"
    using d by (rule mset_set_set)
  then have m: "mset ?its = image_mset (\<lambda>k. the (items s k)) (mset_set (dom (items s)))"
    by (simp add: e)
  have r: "set ?its = ran (items s)"
    by (simp add: ran_as_image e)
  have l: "length ?its = card (dom (items s))"
    using distinct_card[OF d] by (simp add: e)
  have k: "keyed s \<longrightarrow> distinct ?its"
  proof
    assume ky: "keyed s"
    have "inj_on (\<lambda>k. the (items s k)) (set order)"
    proof (rule inj_onI)
      fix a b
      assume a: "a \<in> set order" and b: "b \<in> set order"
        and eq: "the (items s a) = the (items s b)"
      from a e obtain va where va: "items s a = Some va" by auto
      from b e obtain vb where vb: "items s b = Some vb" by auto
      from ky va have "ID va = a" by (simp add: keyed_def)
      moreover from ky vb have "ID vb = b" by (simp add: keyed_def)
      moreover from eq va vb have "va = vb" by simp
      ultimately show "a = b" by simp
    qed
    with d show "distinct ?its"
      by (simp add: distinct_map)
  qed
  from g m r l k show ?thesis by blast
qed

theorem C9_list_each_once_witness:
  "iteration_order
      (items (snd (run NewMemoryStore
         [Add \<lparr>ID = 0, Name = ''a'', Value = 1\<rparr>, Add \<lparr>ID = 0, Name = ''b'', Value = 2\<rparr>]))) [2, 1]
   \<and> GetItems [2, 1] (snd (run NewMemoryStore
         [Add \<lparr>ID = 0, Name = ''a'', Value = 1\<rparr>, Add \<lparr>ID = 0, Name = ''b'', Value = 2\<rparr>]))
       = Inr [\<lparr>ID = 2, Name = ''b'', Value = 2\<rparr>, \<lparr>ID = 1, Name = ''a'', Value = 1\<rparr>]
   \<and> ran (items (snd (run NewMemoryStore
         [Add \<lparr>ID = 0, Name = ''a'', Value = 1\<rparr>, Add \<lparr>ID = 0, Name = ''b'', Value = 2\<rparr>])))
       = {\<lparr>ID = 2, Name = ''b'', Value = 2\<rparr>, \<lparr>ID = 1, Name = ''a'', Value = 1\<rparr>}"
proof -
  let ?s = "snd (run NewMemoryStore
         [Add \<lparr>ID = 0, Name = ''a'', Value = 1\<rparr>, Add \<lparr>ID = 0, Name = ''b'', Value = 2\<rparr>])"
  have s: "?s = \<lparr>items = [1 \<mapsto> \<lparr>ID = 1, Name = ''a'', Value = 1\<rparr>, 2 \<mapsto> \<lparr>ID = 2, Name = ''b'', Value = 2\<rparr>],
                 nextID = 3\<rparr>"
    by (simp add: run_Cons step_Add NewMemoryStore_def wrap_int_def)
  have o: "iteration_order (items ?s) [2, 1]"
    unfolding s by (auto simp: iteration_order_def)
  have g: "GetItems [2, 1] ?s
       = Inr [\<lparr>ID = 2, Name = ''b'', Value = 2\<rparr>, \<lparr>ID = 1, Name = ''a'', Value = 1\<rparr>]"
    unfolding s by (simp add: GetItems_def)
  from C9_list_each_once [OF o] obtain its
    where "GetItems [2, 1] ?s = Inr its" and "set its = ran (items ?s)"
    by blast
  with g have "ran (items ?s) = {\<lparr>ID = 2, Name = ''b'', Value = 2\<rparr>, \<lparr>ID = 1, Name = ''a'', Value = 1\<rparr>}"
    by simp
  with o g show ?thesis by simp
qed

subsection \<open>Negative ids in the path\<close>

lemma Atoi_negative:
  assumes "ds \<noteq> []" and "parse_digits 0 ds = Some n" and "int n \<le> 2 ^ 63"
  shows "Atoi (CHR ''-'' # ds) = Some (- int n)"
  using assms by (simp add: Atoi_def minInt_def maxInt_def)

text \<open>
  Claim C10. Let the id segment of the path be \<^verbatim>\<open>-\<close> followed by decimal digits of a
  value up to \<open>2 ^ 63\<close>. Then \<open>Atoi\<close> succeeds with the negated value, and on a store
  reached from \<open>NewMemoryStore\<close> with at most \<open>maxInt\<close> calls of \<open>AddItem\<close>, where
  every key is positive, a GET, a DELETE and a PUT whose body decodes are answered 404
  with the error of the store lookup, the store unchanged. The restrictions are needed:
  a PUT whose body does not decode is answered 400 before the store is asked, and so is
  any request whose literal is below \<open>minInt\<close>, where \<open>Atoi\<close> fails; the second
  theorem below evaluates both.
\<close>

theorem C10_negative_id_not_found:
  assumes "int (adds ops) \<le> maxInt"
      and "ds \<noteq> []" and "parse_digits 0 ds = Some n" and "int n \<le> 2 ^ 63"
      and "Path r = ''/items/-'' @ ds"
      and "Method r = ''GET'' \<or> Method r = ''DELETE'' \<or> (Method r = ''PUT'' \<and> Body r \<noteq> None)"
  shows "Atoi (drop (length ''/items/'') (Path r)) = Some (- int n)
       \<and> mux order (snd (run NewMemoryStore ops)) r
           = (http_Error (ErrText (NotFound (- int n))) StatusNotFound, snd (run NewMemoryStore ops))"
proof -
  let ?s = "snd (run NewMemoryStore ops)"
  have a: "Atoi (drop (length ''/items/'') (Path r)) = Some (- int n)"
    using Atoi_negative[OF assms(2,3,4)] by (simp add: assms(5))
  have absent: "items ?s (- int n) = None"
  proof (cases "items ?s (- int n)")
    case None
    then show ?thesis .
  next
    case (Some v)
    with assms(1) have "0 < - int n" by (rule new_keys_positive)
    then show ?thesis by simp
  qed
  have p1: "Path r \<noteq> ''/items''" and p2: "Path r \<noteq> ''/items/''"
    and p3: "take (length ''/items/'') (Path r) = ''/items/''"
    by (simp_all add: assms(5))
  have sub: "mux order ?s r = itemsSubtree order ?s r"
    using p1 p3 by (simp add: mux_def)
  from assms(6) have "itemsSubtree order ?s r
      = (http_Error (ErrText (NotFound (- int n))) StatusNotFound, ?s)"
  proof (elim disjE conjE)
    assume "Method r = ''GET''"
    then show ?thesis
      using p2 a absent by (simp add: itemsSubtree_def getItemHandler_def GetItem_def)
  next
    assume "Method r = ''DELETE''"
    then show ?thesis
      using a absent by (simp add: itemsSubtree_def deleteItemHandler_def DeleteItem_def)
  next
    assume "Method r = ''PUT''" and "Body r \<noteq> None"
    then show ?thesis
      using a absent by (auto simp: itemsSubtree_def updateItemHandler_def UpdateItem_def)
  qed
  with sub a show ?thesis by simp
qed

theorem C10_negative_id_not_found_witness:
  "int (adds [Add \<lparr>ID = 0, Name = ''a'', Value = 1\<rparr>]) \<le> maxInt
   \<and> parse_digits 0 ''1'' = Some 1
   \<and> mux [1] (snd (run NewMemoryStore [Add \<lparr>ID = 0, Name = ''a'', Value = 1\<rparr>]))
        \<lparr>Method = ''GET'', Path = ''/items/-1'', Body = None\<rparr>
       = (http_Error (ErrText (NotFound (- 1))) StatusNotFound,
          snd (run NewMemoryStore [Add \<lparr>ID = 0, Name = ''a'', Value = 1\<rparr>]))"
proof -
  let ?ops = "[Add \<lparr>ID = 0, Name = ''a'', Value = 1\<rparr>]"
  let ?r = "\<lparr>Method = ''GET'', Path = ''/items/-1'', Body = None\<rparr>"
  have h1: "int (adds ?ops) \<le> maxInt"
    by (simp add: maxInt_def)
  have h2: "''1'' \<noteq> []" by simp
  have h3: "parse_digits 0 ''1'' = Some 1"
    by (simp add: digit_of_def)
  have h4: "int 1 \<le> 2 ^ 63" by simp
  have h5: "Path ?r = ''/items/-'' @ ''1''" by simp
  have h6: "Method ?r = ''GET'' \<or> Method ?r = ''DELETE'' \<or> (Method ?r = ''PUT'' \<and> Body ?r \<noteq> None)"
    by simp
  from C10_negative_id_not_found [OF h1 h2 h3 h4 h5 h6, of "[1]", THEN conjunct2]
  have "mux [1] (snd (run NewMemoryStore ?ops)) ?r
       = (http_Error (ErrText (NotFound (- 1))) StatusNotFound, snd (run NewMemoryStore ?ops))"
    by simp
  with h1 h3 show ?thesis by simp
qed

theorem C10_bad_request_counterexample:
  "mux [] NewMemoryStore \<lparr>Method = ''PUT'', Path = ''/items/-1'', Body = None\<rparr>
     = (http_Error (Text ''Invalid request body'') StatusBadRequest, NewMemoryStore)
   \<and> mux [] NewMemoryStore \<lparr>Method = ''GET'', Path = ''/items/-9223372036854775809'', Body = None\<rparr>
     = (http_Error (Text ''Invalid item ID'') StatusBadRequest, NewMemoryStore)"
  by (simp add: mux_def itemsSubtree_def updateItemHandler_def getItemHandler_def Atoi_def
      digit_of_def minInt_def maxInt_def)

end
